theory Spec2Isabelle
  imports Main
begin

section \<open>Python values used by plugins/inline.py\<close>

text \<open>
  A Python \<open>str\<close> is modelled as a \<open>string\<close> holding the UTF-8 encoding of the text:
  splitting on \<open>|\<close>, membership of \<open>|\<close>, concatenation and emptiness are the same on the
  encoding as on the code points. Exceptions are values: every function that can raise
  returns \<open>py_exception + 'a\<close>.
\<close>

datatype py_exception =
    ValueError
  | KeyError string
  | IndexError
  | QueryIdInvalid
  | OtherException string

datatype py_value = PyInt int | PyStr string | PyNone

definition is_ascii :: "char \<Rightarrow> bool" where
  "is_ascii c = ((of_char c :: nat) < 128)"

definition is_digit :: "char \<Rightarrow> bool" where
  "is_digit c = (48 \<le> (of_char c :: nat) \<and> (of_char c :: nat) \<le> 57)"

definition digit_val :: "char \<Rightarrow> nat" where
  "digit_val c = of_char c - 48"

subsection \<open>\<open>str(n)\<close> and f-string interpolation\<close>

function str_nat :: "nat \<Rightarrow> string" where
  "str_nat n =
     (if n < 10 then [char_of (48 + n)]
      else str_nat (n div 10) @ [char_of (48 + n mod 10)])"
  by pat_completeness auto
termination
  by (relation "measure (\<lambda>n. n)") auto

declare str_nat.simps [simp del]

definition str_int :: "int \<Rightarrow> string" where
  "str_int i = (if i < 0 then CHR ''-'' # str_nat (nat (- i)) else str_nat (nat i))"

text \<open>\<open>str(v)\<close> of the value the search collaborator returns as next offset.\<close>

fun py_str :: "py_value \<Rightarrow> string" where
  "py_str (PyInt i) = str_int i"
| "py_str (PyStr s) = s"
| "py_str PyNone = ''None''"

text \<open>\<open>f"{x}"\<close> of an optional string: \<open>None\<close> prints as \<open>None\<close>.\<close>

fun str_opt :: "string option \<Rightarrow> string" where
  "str_opt None = ''None''"
| "str_opt (Some s) = s"

subsection \<open>\<open>t in s\<close> on strings\<close>

definition starts_with :: "string \<Rightarrow> string \<Rightarrow> bool" where
  "starts_with s w = (take (length w) s = w)"

definition ends_with :: "string \<Rightarrow> string \<Rightarrow> bool" where
  "ends_with s w = (length w \<le> length s \<and> drop (length s - length w) s = w)"

fun py_in :: "string \<Rightarrow> string \<Rightarrow> bool" where
  "py_in t [] = (t = [])"
| "py_in t (c # cs) = (starts_with (c # cs) t \<or> py_in t cs)"

subsection \<open>\<open>str.strip()\<close>\<close>

text \<open>
  \<open>str.strip()\<close> removes the code points for which \<open>str.isspace()\<close> holds from both
  ends: U+0009 to U+000D, U+001C to U+0020, U+0085, U+00A0, U+1680, U+2000 to U+200A,
  U+2028, U+2029, U+202F, U+205F and U+3000, listed here by their UTF-8 encodings.
\<close>

definition whitespace :: "string list" where
  "whitespace =
     [[CHR 0x09], [CHR 0x0A], [CHR 0x0B], [CHR 0x0C], [CHR 0x0D],
      [CHR 0x1C], [CHR 0x1D], [CHR 0x1E], [CHR 0x1F], [CHR 0x20],
      [CHR 0xC2, CHR 0x85], [CHR 0xC2, CHR 0xA0],
      [CHR 0xE1, CHR 0x9A, CHR 0x80],
      [CHR 0xE2, CHR 0x80, CHR 0x80], [CHR 0xE2, CHR 0x80, CHR 0x81],
      [CHR 0xE2, CHR 0x80, CHR 0x82], [CHR 0xE2, CHR 0x80, CHR 0x83],
      [CHR 0xE2, CHR 0x80, CHR 0x84], [CHR 0xE2, CHR 0x80, CHR 0x85],
      [CHR 0xE2, CHR 0x80, CHR 0x86], [CHR 0xE2, CHR 0x80, CHR 0x87],
      [CHR 0xE2, CHR 0x80, CHR 0x88], [CHR 0xE2, CHR 0x80, CHR 0x89],
      [CHR 0xE2, CHR 0x80, CHR 0x8A],
      [CHR 0xE2, CHR 0x80, CHR 0xA8], [CHR 0xE2, CHR 0x80, CHR 0xA9],
      [CHR 0xE2, CHR 0x80, CHR 0xAF],
      [CHR 0xE2, CHR 0x81, CHR 0x9F],
      [CHR 0xE3, CHR 0x80, CHR 0x80]]"

definition leading_ws :: "string \<Rightarrow> nat" where
  "leading_ws s = (case find (starts_with s) whitespace of None \<Rightarrow> 0 | Some w \<Rightarrow> length w)"

definition trailing_ws :: "string \<Rightarrow> nat" where
  "trailing_ws s = (case find (ends_with s) whitespace of None \<Rightarrow> 0 | Some w \<Rightarrow> length w)"

function py_lstrip :: "string \<Rightarrow> string" where
  "py_lstrip s =
     (if s = [] \<or> leading_ws s = 0 then s else py_lstrip (drop (leading_ws s) s))"
  by pat_completeness auto
termination
  by (relation "measure length") auto

function py_rstrip :: "string \<Rightarrow> string" where
  "py_rstrip s =
     (if s = [] \<or> trailing_ws s = 0 then s
      else py_rstrip (take (length s - trailing_ws s) s))"
  by pat_completeness auto
termination
  by (relation "measure length") auto

declare py_lstrip.simps [simp del]
declare py_rstrip.simps [simp del]

definition py_strip :: "string \<Rightarrow> string" where
  "py_strip s = py_rstrip (py_lstrip s)"

subsection \<open>\<open>str.lower()\<close>\<close>

text \<open>
  On ASCII text \<open>str.lower()\<close> maps \<open>A\<close> to \<open>Z\<close> onto \<open>a\<close> to \<open>z\<close>. On other text it
  applies the case mapping of the Unicode character database, which is a table of the
  interpreter and is taken as the parameter \<open>unicode_lower\<close>.
\<close>

definition ascii_lower :: "char \<Rightarrow> char" where
  "ascii_lower c =
     (if 65 \<le> (of_char c :: nat) \<and> (of_char c :: nat) \<le> 90
      then char_of ((of_char c :: nat) + 32) else c)"

definition py_lower :: "(string \<Rightarrow> string) \<Rightarrow> string \<Rightarrow> string" where
  "py_lower unicode_lower s =
     (if list_all is_ascii s then map ascii_lower s else unicode_lower s)"

subsection \<open>\<open>str.split(sep, maxsplit=1)\<close> with a one-character separator\<close>

definition py_split1 :: "char \<Rightarrow> string \<Rightarrow> string list" where
  "py_split1 sep s =
     (case dropWhile (\<lambda>c. c \<noteq> sep) s of
        [] \<Rightarrow> [s]
      | _ # r \<Rightarrow> [takeWhile (\<lambda>c. c \<noteq> sep) s, r])"

subsection \<open>\<open>int(s)\<close> on a string\<close>

text \<open>
  \<open>int(s)\<close> in base 10 accepts optional whitespace (the C locale's: U+0009 to U+000D and
  the space), an optional sign, then decimal digits with single underscores between
  digits, then optional whitespace; anything else raises \<open>ValueError\<close>. A literal of more
  digits than the interpreter's \<open>int_max_str_digits\<close> (when that limit is not 0) raises
  \<open>ValueError\<close> too. On text that is not ASCII the interpreter first maps Unicode
  spaces and decimal digits through its character database: that case is the parameter
  \<open>unicode_int\<close>.
\<close>

definition is_c_space :: "char \<Rightarrow> bool" where
  "is_c_space c = ((9 \<le> (of_char c :: nat) \<and> (of_char c :: nat) \<le> 13) \<or> (of_char c :: nat) = 32)"

fun scan_digits :: "nat \<Rightarrow> nat \<Rightarrow> string \<Rightarrow> (nat \<times> nat \<times> string) option" where
  "scan_digits v k [] = Some (v, k, [])"
| "scan_digits v k (c # cs) =
     (if is_digit c then scan_digits (10 * v + digit_val c) (Suc k) cs
      else if c = CHR ''_'' then
        (case cs of
           [] \<Rightarrow> None
         | d # ds \<Rightarrow>
             if is_digit d then scan_digits (10 * v + digit_val d) (Suc k) ds else None)
      else Some (v, k, c # cs))"

definition ascii_int :: "nat \<Rightarrow> string \<Rightarrow> py_exception + int" where
  "ascii_int max_digits s =
     (let t = dropWhile is_c_space s;
          neg = (case t of [] \<Rightarrow> False | c # _ \<Rightarrow> c = CHR ''-'');
          u = (case t of [] \<Rightarrow> [] | c # r \<Rightarrow> if c = CHR ''+'' \<or> c = CHR ''-'' then r else t)
      in case u of
           [] \<Rightarrow> Inl ValueError
         | d # _ \<Rightarrow>
             if is_digit d then
               (case scan_digits 0 0 u of
                  None \<Rightarrow> Inl ValueError
                | Some (v, k, rest) \<Rightarrow>
                    if list_all is_c_space rest then
                      (if 0 < max_digits \<and> max_digits < k then Inl ValueError
                       else Inr (if neg then - int v else int v))
                    else Inl ValueError)
             else Inl ValueError)"

definition py_int :: "nat \<Rightarrow> (string \<Rightarrow> py_exception + int) \<Rightarrow> string \<Rightarrow> py_exception + int" where
  "py_int max_digits unicode_int s =
     (if list_all is_ascii s then ascii_int max_digits s else unicode_int s)"

subsection \<open>\<open>str.format(**kwargs)\<close> with string arguments\<close>

text \<open>
  The template is read left to right. \<open>{{\<close> and \<open>}}\<close> are literal braces, a single
  \<open>}\<close> outside a field raises \<open>ValueError\<close>, and \<open>{name}\<close> is replaced by the keyword
  argument \<open>name\<close> (\<open>KeyError\<close> when there is none; the arguments here are strings, which
  format as themselves). A field that is not closed, or holds \<open>{\<close>, raises
  \<open>ValueError\<close>; the empty field \<open>{}\<close> is positional and raises \<open>IndexError\<close>, since no
  positional argument is passed. The first error ends the formatting. Fields that use a
  conversion (\<open>!\<close>), a format specification (\<open>:\<close>), an attribute (\<open>.\<close>), an index
  (\<open>[\<close>), a numeric name or text that is not ASCII are formatted by the interpreter's
  mini-language, which is taken as the parameter \<open>ext\<close>: it receives the template from
  that field on.
\<close>

fun emit :: "string \<Rightarrow> py_exception + string \<Rightarrow> py_exception + string" where
  "emit s (Inl e) = Inl e"
| "emit s (Inr out) = Inr (s @ out)"

fun py_format_text :: "(string \<Rightarrow> py_exception + string) \<Rightarrow> (string \<times> string) list \<Rightarrow> string \<Rightarrow> py_exception + string"
and py_format_field :: "(string \<Rightarrow> py_exception + string) \<Rightarrow> (string \<times> string) list \<Rightarrow> string \<Rightarrow> string \<Rightarrow> py_exception + string" where
  "py_format_text ext kw [] = Inr []"
| "py_format_text ext kw (c # cs) =
     (if c = CHR ''{'' then
        (case cs of
           [] \<Rightarrow> Inl ValueError
         | d # ds \<Rightarrow>
             if d = CHR ''{'' then emit [c] (py_format_text ext kw ds)
             else py_format_field ext kw [] cs)
      else if c = CHR ''}'' then
        (case cs of
           [] \<Rightarrow> Inl ValueError
         | d # ds \<Rightarrow>
             if d = CHR ''}'' then emit [c] (py_format_text ext kw ds)
             else Inl ValueError)
      else emit [c] (py_format_text ext kw cs))"
| "py_format_field ext kw name [] = Inl ValueError"
| "py_format_field ext kw name (c # cs) =
     (if c = CHR ''}'' then
        (if name = [] then Inl IndexError
         else if list_all is_digit name then ext (CHR ''{'' # name @ c # cs)
         else case map_of kw name of
                None \<Rightarrow> Inl (KeyError name)
              | Some v \<Rightarrow> emit v (py_format_text ext kw cs))
      else if c = CHR ''{'' then Inl ValueError
      else if is_ascii c \<and> c \<notin> set ''!:.['' then py_format_field ext kw (name @ [c]) cs
      else ext (CHR ''{'' # name @ c # cs))"

definition py_format :: "(string \<Rightarrow> py_exception + string) \<Rightarrow> string \<Rightarrow> (string \<times> string) list \<Rightarrow> py_exception + string" where
  "py_format ext template kw = py_format_text ext kw template"

section \<open>The data of an inline query\<close>

text \<open>\<open>query.from_user\<close> is a user object or \<open>None\<close>; a user object is truthy.\<close>

record user =
  user_id :: int

record inline_query =
  from_user :: "user option"
  query :: string
  offset :: "string option"

text \<open>A file record of the search index, read only.\<close>

record file_record =
  file_id :: string
  file_name :: "string option"
  file_size :: "int option"
  file_type :: "string option"
  caption :: "string option"

text \<open>
  \<open>InlineKeyboardButton(text, url=..., switch_inline_query_current_chat=...)\<close>; an
  \<open>InlineKeyboardMarkup\<close> is a list of rows of buttons. Markup objects live in a heap
  (a list, addressed by position) so that sharing of one object is visible.
\<close>

record inline_keyboard_button =
  button_text :: string
  url :: "string option"
  switch_inline_query_current_chat :: "string option"

type_synonym inline_keyboard_markup = "inline_keyboard_button list list"

type_synonym markup_ref = nat

record inline_query_result =
  title :: "string option"
  document_file_id :: string
  result_caption :: string
  description :: string
  reply_markup :: markup_ref

text \<open>The keyword arguments of one \<open>query.answer(...)\<close> call; \<open>None\<close> is an argument not passed.\<close>

record answer_args =
  results :: "inline_query_result list"
  is_personal :: "bool option"
  cache_time_arg :: int
  switch_pm_text :: string
  switch_pm_parameter :: string
  next_offset :: "string option"

text \<open>What the handler does to the outside, in order.\<close>

datatype event =
    SubscriptionCheck
  | Search string "string option" int int
  | Answer answer_args
  | LogException py_exception

text \<open>
  The configuration (module \<open>info\<close>), the banned users (\<open>utils.temp\<close>), the
  collaborators (\<open>is_subscribed\<close>, \<open>get_search_results\<close>, \<open>get_size\<close>, the platform's
  answer call) and the interpreter's tables are not part of this file: they are the
  fields of the environment. A collaborator either returns or raises.
\<close>

record env =
  AUTH_USERS :: "int list"
  AUTH_CHANNEL :: "int option"
  CACHE_TIME :: int
  CUSTOM_FILE_CAPTION :: "string option"
  BANNED_USERS :: "int list"
  is_subscribed :: "inline_query \<Rightarrow> py_exception + bool"
  get_search_results :: "string \<Rightarrow> string option \<Rightarrow> int \<Rightarrow> int \<Rightarrow> py_exception + (file_record list \<times> py_value \<times> int)"
  get_size :: "int option \<Rightarrow> py_exception + string option"
  query_answer :: "answer_args \<Rightarrow> py_exception option"
  unicode_lower :: "string \<Rightarrow> string"
  unicode_int :: "string \<Rightarrow> py_exception + int"
  format_extended :: "(string \<times> string) list \<Rightarrow> string \<Rightarrow> py_exception + string"
  int_max_str_digits :: nat

text \<open>
  One run of the handler: the events, the exception that left the handler (\<open>None\<close> when
  it returned), and the markup objects it built.
\<close>

record outcome =
  events :: "event list"
  raised :: "py_exception option"
  heap :: "inline_keyboard_markup list"

section \<open>The handler of plugins/inline.py\<close>

subsection \<open>Module constants\<close>

text \<open>Truthiness of \<open>AUTH_CHANNEL\<close> (a channel id or \<open>None\<close>) and of the caption template.\<close>

fun channel_set :: "int option \<Rightarrow> bool" where
  "channel_set None = False"
| "channel_set (Some c) = (c \<noteq> 0)"

fun template_set :: "string option \<Rightarrow> bool" where
  "template_set None = False"
| "template_set (Some t) = (t \<noteq> [])"

text \<open>\<open>cache_time = 0 if AUTH_USERS or AUTH_CHANNEL else CACHE_TIME\<close>\<close>

definition cache_time :: "env \<Rightarrow> int" where
  "cache_time env =
     (if AUTH_USERS env \<noteq> [] \<or> channel_set (AUTH_CHANNEL env) then 0 else CACHE_TIME env)"

definition FORCE_FRESH_CACHE :: bool where
  "FORCE_FRESH_CACHE = True"

text \<open>
  The emoji of \<open>pyrogram.emoji\<close> the prompts use, U+1F4C1 and U+274C, and the emoji of
  the channel button's label, U+1F4DA.
\<close>

definition FILE_FOLDER :: string where
  "FILE_FOLDER = [CHR 0xF0, CHR 0x9F, CHR 0x93, CHR 0x81]"

definition CROSS_MARK :: string where
  "CROSS_MARK = [CHR 0xE2, CHR 0x9D, CHR 0x8C]"

definition BOOKS :: string where
  "BOOKS = [CHR 0xF0, CHR 0x9F, CHR 0x93, CHR 0x9A]"

subsection \<open>\<open>inline_users\<close>\<close>

definition inline_users :: "env \<Rightarrow> inline_query \<Rightarrow> bool" where
  "inline_users env q =
     (if AUTH_USERS env \<noteq> [] then
        (case from_user q of
           None \<Rightarrow> False
         | Some u \<Rightarrow> if user_id u \<in> set (AUTH_USERS env) then True else False)
      else
        (case from_user q of
           None \<Rightarrow> False
         | Some u \<Rightarrow> if user_id u \<notin> set (BANNED_USERS env) then True else False))"

subsection \<open>\<open>get_reply_markup\<close>\<close>

definition get_reply_markup :: "string \<Rightarrow> inline_keyboard_markup" where
  "get_reply_markup q =
     [[\<lparr>button_text = BOOKS @ '' HD MOVIES HUB '' @ BOOKS,
        url = Some ''https://t.me/+KJHSwIdswKUwZjU1'',
        switch_inline_query_current_chat = None\<rparr>],
      [\<lparr>button_text = ''Search again'',
        url = None,
        switch_inline_query_current_chat = Some q\<rparr>]]"

text \<open>Building an object puts it at a fresh address of the heap.\<close>

definition new_markup :: "inline_keyboard_markup list \<Rightarrow> inline_keyboard_markup \<Rightarrow> inline_keyboard_markup list \<times> markup_ref" where
  "new_markup h m = (h @ [m], length h)"

subsection \<open>\<open>answer\<close>: parsing the query (lines 67 to 75)\<close>

text \<open>
  The unpacking \<open>string, file_type = query.query.split("|", maxsplit=1)\<close> raises
  \<open>ValueError\<close> unless the split has two parts.
\<close>

definition parse_query :: "(string \<Rightarrow> string) \<Rightarrow> string \<Rightarrow> py_exception + (string \<times> string option)" where
  "parse_query ulower raw =
     (if py_in ''|'' raw then
        (case py_split1 CHR ''|'' raw of
           [string, ftype] \<Rightarrow> Inr (py_strip string, Some (py_lower ulower (py_strip ftype)))
         | _ \<Rightarrow> Inl ValueError)
      else Inr (py_strip raw, None))"

text \<open>\<open>offset = int(query.offset or 0)\<close>: an absent or empty token is falsy.\<close>

definition parse_offset :: "env \<Rightarrow> string option \<Rightarrow> py_exception + int" where
  "parse_offset env tok =
     (case tok of
        None \<Rightarrow> Inr 0
      | Some s \<Rightarrow>
          if s = [] then Inr 0
          else py_int (int_max_str_digits env) (unicode_int env) s)"

subsection \<open>\<open>answer\<close>: one result per file (lines 85 to 113)\<close>

fun or_empty :: "string option \<Rightarrow> string" where
  "or_empty None = []"
| "or_empty (Some s) = s"

text \<open>
  Lines 90 to 100: the value of \<open>f_caption\<close> after the template block, with the log
  entries written. \<open>sz\<close> is what \<open>get_size\<close> returned.
\<close>

definition format_caption :: "env \<Rightarrow> file_record \<Rightarrow> string option \<Rightarrow> event list \<times> string option" where
  "format_caption env f sz =
     (if template_set (CUSTOM_FILE_CAPTION env) then
        (let kw = [(''file_name'', or_empty (file_name f)),
                   (''file_size'', or_empty sz),
                   (''file_caption'', or_empty (caption f))]
         in case py_format (format_extended env kw) (or_empty (CUSTOM_FILE_CAPTION env)) kw of
              Inr c \<Rightarrow> ([], Some c)
            | Inl e \<Rightarrow> ([LogException e], caption f))
      else ([], caption f))"

definition make_result :: "env \<Rightarrow> markup_ref \<Rightarrow> file_record \<Rightarrow> event list \<times> (py_exception + inline_query_result)" where
  "make_result env r f =
     (case get_size env (file_size f) of
        Inl e \<Rightarrow> ([], Inl e)
      | Inr sz \<Rightarrow>
          (case format_caption env f sz of
             (evs, f_caption) \<Rightarrow>
               (evs,
                Inr \<lparr>title = file_name f,
                     document_file_id = file_id f,
                     result_caption = (case f_caption of None \<Rightarrow> str_opt (file_name f) | Some c \<Rightarrow> c),
                     description = ''Size: '' @ str_opt sz @ [CHR 0x0A] @ ''Type: '' @ str_opt (file_type f),
                     reply_markup = r\<rparr>)))"

fun make_results :: "env \<Rightarrow> markup_ref \<Rightarrow> file_record list \<Rightarrow> event list \<times> (py_exception + inline_query_result list)" where
  "make_results env r [] = ([], Inr [])"
| "make_results env r (f # fs) =
     (case make_result env r f of
        (evs, Inl e) \<Rightarrow> (evs, Inl e)
      | (evs, Inr x) \<Rightarrow>
          (case make_results env r fs of
             (evs', Inl e) \<Rightarrow> (evs @ evs', Inl e)
           | (evs', Inr xs) \<Rightarrow> (evs @ evs', Inr (x # xs))))"

subsection \<open>\<open>answer\<close>: sending the response (lines 115 to 143)\<close>

definition results_prompt :: "string \<Rightarrow> int \<Rightarrow> string" where
  "results_prompt string total_n =
     (let switch_pm_text = FILE_FOLDER @ '' Results - '' @ str_int total_n
      in if string \<noteq> [] then switch_pm_text @ '' for '' @ string else switch_pm_text)"

definition no_results_prompt :: "string \<Rightarrow> string" where
  "no_results_prompt string =
     (let switch_pm_text = CROSS_MARK @ '' No results''
      in if string \<noteq> [] then switch_pm_text @ '' for '' @ [CHR 0x22] @ string @ [CHR 0x22]
         else switch_pm_text)"

definition respond :: "env \<Rightarrow> event list \<Rightarrow> inline_keyboard_markup list \<Rightarrow> string \<Rightarrow> inline_query_result list \<Rightarrow> py_value \<Rightarrow> int \<Rightarrow> outcome" where
  "respond env evs h string res next_off total_n =
     (if res \<noteq> [] then
        (let a = \<lparr>results = res,
                  is_personal = Some True,
                  cache_time_arg = (if FORCE_FRESH_CACHE then 0 else cache_time env),
                  switch_pm_text = results_prompt string total_n,
                  switch_pm_parameter = ''start'',
                  next_offset = Some (py_str next_off)\<rparr>
         in case query_answer env a of
              None \<Rightarrow> \<lparr>events = evs @ [Answer a], raised = None, heap = h\<rparr>
            | Some e \<Rightarrow>
                if e = QueryIdInvalid then \<lparr>events = evs @ [Answer a], raised = None, heap = h\<rparr>
                else \<lparr>events = evs @ [Answer a, LogException e], raised = None, heap = h\<rparr>)
      else
        (let a = \<lparr>results = [],
                  is_personal = Some True,
                  cache_time_arg = (if FORCE_FRESH_CACHE then 0 else cache_time env),
                  switch_pm_text = no_results_prompt string,
                  switch_pm_parameter = ''okay'',
                  next_offset = None\<rparr>
         in \<lparr>events = evs @ [Answer a], raised = query_answer env a, heap = h\<rparr>))"

subsection \<open>\<open>answer\<close>\<close>

text \<open>The two denial responses (lines 48 to 53 and 57 to 62); the send is not guarded.\<close>

definition access_denied :: answer_args where
  "access_denied =
     \<lparr>results = [], is_personal = None, cache_time_arg = 0,
      switch_pm_text = ''okDa'', switch_pm_parameter = ''hehe'', next_offset = None\<rparr>"

definition subscription_denied :: answer_args where
  "subscription_denied =
     \<lparr>results = [], is_personal = None, cache_time_arg = 0,
      switch_pm_text = ''You have to subscribe my channel to use the bot'',
      switch_pm_parameter = ''subscribe'', next_offset = None\<rparr>"

text \<open>Lines 65 to 143, reached when both gates have passed; \<open>evs\<close> are the events so far.\<close>

definition search_and_respond :: "env \<Rightarrow> inline_query \<Rightarrow> event list \<Rightarrow> outcome" where
  "search_and_respond env q evs =
     (case parse_query (unicode_lower env) (query q) of
        Inl e \<Rightarrow> \<lparr>events = evs, raised = Some e, heap = []\<rparr>
      | Inr (string, ftype) \<Rightarrow>
          (case parse_offset env (offset q) of
             Inl e \<Rightarrow> \<lparr>events = evs, raised = Some e, heap = []\<rparr>
           | Inr off \<Rightarrow>
               (case new_markup [] (get_reply_markup string) of
                  (h, r) \<Rightarrow>
                    (case get_search_results env string ftype 10 off of
                       Inl e \<Rightarrow>
                         \<lparr>events = evs @ [Search string ftype 10 off], raised = Some e, heap = h\<rparr>
                     | Inr (files, next_off, total_n) \<Rightarrow>
                         (case make_results env r files of
                            (evs', Inl e) \<Rightarrow>
                              \<lparr>events = evs @ [Search string ftype 10 off] @ evs',
                               raised = Some e, heap = h\<rparr>
                          | (evs', Inr res) \<Rightarrow>
                              respond env (evs @ [Search string ftype 10 off] @ evs') h
                                string res next_off total_n)))))"

definition answer :: "env \<Rightarrow> inline_query \<Rightarrow> outcome" where
  "answer env q =
     (if \<not> inline_users env q then
        \<lparr>events = [Answer access_denied], raised = query_answer env access_denied, heap = []\<rparr>
      else if channel_set (AUTH_CHANNEL env) then
        (case is_subscribed env q of
           Inl e \<Rightarrow> \<lparr>events = [SubscriptionCheck], raised = Some e, heap = []\<rparr>
         | Inr subscribed \<Rightarrow>
             if \<not> subscribed then
               \<lparr>events = [SubscriptionCheck, Answer subscription_denied],
                raised = query_answer env subscription_denied, heap = []\<rparr>
             else search_and_respond env q [SubscriptionCheck])
      else search_and_respond env q [])"

subsection \<open>Reading a run\<close>

fun answers_of :: "event list \<Rightarrow> answer_args list" where
  "answers_of [] = []"
| "answers_of (Answer a # es) = a # answers_of es"
| "answers_of (e # es) = answers_of es"

fun is_search :: "event \<Rightarrow> bool" where
  "is_search (Search s t m off) = True"
| "is_search e = False"

fun is_log :: "event \<Rightarrow> bool" where
  "is_log (LogException e) = True"
| "is_log e = False"

text \<open>Both gates let the query through: the user is admitted and, when a channel is
  required, the subscription check returned \<open>True\<close>.\<close>

definition gates_pass :: "env \<Rightarrow> inline_query \<Rightarrow> bool" where
  "gates_pass env q =
     (inline_users env q \<and>
      (if channel_set (AUTH_CHANNEL env) then is_subscribed env q = Inr True else True))"

subsection \<open>Concrete runs\<close>

text \<open>
  An environment with no allow-list, no required channel, no caption template, one banned
  user, an index with no files and a platform that accepts every answer; the runs below
  vary it field by field.
\<close>

definition example_env :: env where
  "example_env =
     \<lparr>AUTH_USERS = [], AUTH_CHANNEL = None, CACHE_TIME = 300, CUSTOM_FILE_CAPTION = None,
      BANNED_USERS = [666],
      is_subscribed = (\<lambda>q. Inr True),
      get_search_results = (\<lambda>s t m off. Inr ([], PyStr [], 0)),
      get_size = (\<lambda>n. Inr (Some ''10 MB'')),
      query_answer = (\<lambda>a. None),
      unicode_lower = (\<lambda>s. s),
      unicode_int = (\<lambda>s. Inl ValueError),
      format_extended = (\<lambda>kw s. Inl ValueError),
      int_max_str_digits = 4300\<rparr>"

definition query_from :: "int \<Rightarrow> string \<Rightarrow> inline_query" where
  "query_from uid s = \<lparr>from_user = Some \<lparr>user_id = uid\<rparr>, query = s, offset = Some []\<rparr>"

definition file_a :: file_record where
  "file_a =
     \<lparr>file_id = ''F1'', file_name = Some ''a.mp4'', file_size = Some 10485760,
      file_type = Some ''video'', caption = Some ''first''\<rparr>"

definition file_b :: file_record where
  "file_b =
     \<lparr>file_id = ''F2'', file_name = Some ''b.mkv'', file_size = Some 10485760,
      file_type = Some ''video'', caption = None\<rparr>"

subsection \<open>Templates with named fields\<close>

text \<open>
  A template read as a sequence of pieces: literal text and fields \<open>{name}\<close>.
  \<open>template_of\<close> writes the pieces as a template (braces of literal text doubled);
  \<open>substitute\<close> is named-field substitution as the specification words it: every field
  is replaced by the value of its name, and a name without a value is an error. A name
  is plain when it is not empty, is ASCII without \<open>{ } ! : . [\<close>, and is not a numeral.
\<close>

datatype piece = Lit string | Field string

fun escape_braces :: "string \<Rightarrow> string" where
  "escape_braces [] = []"
| "escape_braces (c # cs) =
     (if c = CHR ''{'' \<or> c = CHR ''}'' then c # c # escape_braces cs else c # escape_braces cs)"

fun template_of :: "piece list \<Rightarrow> string" where
  "template_of [] = []"
| "template_of (Lit s # ps) = escape_braces s @ template_of ps"
| "template_of (Field n # ps) = CHR ''{'' # n @ CHR ''}'' # template_of ps"

definition plain_char :: "char \<Rightarrow> bool" where
  "plain_char c = (is_ascii c \<and> c \<notin> set ''{}!:.['')"

definition plain_name :: "string \<Rightarrow> bool" where
  "plain_name n = (n \<noteq> [] \<and> list_all plain_char n \<and> \<not> list_all is_digit n)"

fun plain_fields :: "piece list \<Rightarrow> bool" where
  "plain_fields [] = True"
| "plain_fields (Lit s # ps) = plain_fields ps"
| "plain_fields (Field n # ps) = (plain_name n \<and> plain_fields ps)"

fun substitute :: "(string \<times> string) list \<Rightarrow> piece list \<Rightarrow> py_exception + string" where
  "substitute kw [] = Inr []"
| "substitute kw (Lit s # ps) = emit s (substitute kw ps)"
| "substitute kw (Field n # ps) =
     (case map_of kw n of
        None \<Rightarrow> Inl (KeyError n)
      | Some v \<Rightarrow> emit v (substitute kw ps))"

fun field_names :: "piece list \<Rightarrow> string list" where
  "field_names [] = []"
| "field_names (Lit s # ps) = field_names ps"
| "field_names (Field n # ps) = n # field_names ps"

fun fill :: "(string \<Rightarrow> string) \<Rightarrow> piece list \<Rightarrow> string" where
  "fill v [] = []"
| "fill v (Lit s # ps) = s @ fill v ps"
| "fill v (Field n # ps) = v n @ fill v ps"

text \<open>The values the handler passes for the three placeholders (lines 93 to 95).\<close>

definition caption_field :: "file_record \<Rightarrow> string option \<Rightarrow> string \<Rightarrow> string" where
  "caption_field f sz n =
     (if n = ''file_name'' then or_empty (file_name f)
      else if n = ''file_size'' then or_empty sz
      else if n = ''file_caption'' then or_empty (caption f)
      else [])"

text \<open>The characters an ASCII integer literal is made of.\<close>

definition int_literal_char :: "char \<Rightarrow> bool" where
  "int_literal_char c = (is_digit c \<or> is_c_space c \<or> c \<in> set ''+-_'')"

section \<open>Properties\<close>

subsection \<open>Auxiliary facts\<close>

lemma py_in_single: "py_in [c] s = (c \<in> set s)"
  by (induction s) (auto simp: starts_with_def)

lemma py_split1_at_first:
  "sep \<notin> set l \<Longrightarrow> py_split1 sep (l @ sep # r) = [l, r]"
proof -
  assume "sep \<notin> set l"
  then have "dropWhile (\<lambda>c. c \<noteq> sep) (l @ sep # r) = sep # r"
    and "takeWhile (\<lambda>c. c \<noteq> sep) (l @ sep # r) = l"
    by (induction l) auto
  then show ?thesis by (simp add: py_split1_def)
qed

lemma answer_gates_pass:
  "gates_pass env q \<Longrightarrow>
     answer env q =
       search_and_respond env q (if channel_set (AUTH_CHANNEL env) then [SubscriptionCheck] else [])"
  by (simp add: gates_pass_def answer_def split: if_splits)

subsection \<open>The access gate\<close>

text \<open>
  C1: for a query that carries a user, with a non-empty allow-list \<open>AUTH_USERS\<close> the user
  is admitted exactly when the user id is in the allow-list; with an empty allow-list the
  user is admitted exactly when the user id is not among the banned users.
\<close>

theorem inline_users_admission:
  "from_user q = Some u \<Longrightarrow>
     (AUTH_USERS env \<noteq> [] \<longrightarrow> inline_users env q = (user_id u \<in> set (AUTH_USERS env))) \<and>
     (AUTH_USERS env = [] \<longrightarrow> inline_users env q = (user_id u \<notin> set (BANNED_USERS env)))"
  by (simp add: inline_users_def)

theorem inline_users_admission_witness:
  "inline_users (example_env\<lparr>AUTH_USERS := [1, 2]\<rparr>) (query_from 2 ''batman'') = True \<and>
   inline_users (example_env\<lparr>AUTH_USERS := [1, 2]\<rparr>) (query_from 3 ''batman'') = False \<and>
   inline_users example_env (query_from 666 ''batman'') = False \<and>
   inline_users example_env (query_from 3 ''batman'') = True"
  using inline_users_admission [of "query_from 2 ''batman''" "\<lparr>user_id = 2\<rparr>" "example_env\<lparr>AUTH_USERS := [1, 2]\<rparr>"]
    inline_users_admission [of "query_from 3 ''batman''" "\<lparr>user_id = 3\<rparr>" "example_env\<lparr>AUTH_USERS := [1, 2]\<rparr>"]
    inline_users_admission [of "query_from 666 ''batman''" "\<lparr>user_id = 666\<rparr>" example_env]
    inline_users_admission [of "query_from 3 ''batman''" "\<lparr>user_id = 3\<rparr>" example_env]
  by (simp add: example_env_def query_from_def)

text \<open>
  C10: a query whose \<open>from_user\<close> is \<open>None\<close> is not admitted, whatever the allow-list and
  the banned users are; the handler sends the access-denial response and nothing else, so
  the search collaborator is not called.
\<close>

theorem missing_user_denied:
  "from_user q = None \<Longrightarrow>
     \<not> inline_users env q \<and>
     events (answer env q) = [Answer access_denied] \<and>
     \<not> list_ex is_search (events (answer env q))"
  by (simp add: inline_users_def answer_def)

theorem missing_user_denied_witness:
  "\<not> inline_users (example_env\<lparr>AUTH_USERS := [1, 2]\<rparr>) \<lparr>from_user = None, query = ''batman'', offset = None\<rparr> \<and>
   events (answer (example_env\<lparr>AUTH_USERS := [1, 2]\<rparr>) \<lparr>from_user = None, query = ''batman'', offset = None\<rparr>) =
     [Answer access_denied] \<and>
   \<not> inline_users example_env \<lparr>from_user = None, query = ''batman'', offset = None\<rparr> \<and>
   events (answer example_env \<lparr>from_user = None, query = ''batman'', offset = None\<rparr>) =
     [Answer access_denied]"
  using missing_user_denied [of "\<lparr>from_user = None, query = ''batman'', offset = None\<rparr>" "example_env\<lparr>AUTH_USERS := [1, 2]\<rparr>"]
    missing_user_denied [of "\<lparr>from_user = None, query = ''batman'', offset = None\<rparr>" example_env]
  by simp

text \<open>
  C4: when the access gate denies a query, the one thing the handler does is to answer
  with an empty result list, cache time 0 and the switch-to-private-message prompt
  \<open>okDa\<close> with parameter \<open>hehe\<close>, whatever \<open>CACHE_TIME\<close> is configured.
\<close>

theorem access_denial_response:
  "\<not> inline_users env q \<Longrightarrow>
     events (answer env q) =
       [Answer \<lparr>results = [], is_personal = None, cache_time_arg = 0,
                switch_pm_text = ''okDa'', switch_pm_parameter = ''hehe'',
                next_offset = None\<rparr>]"
  by (simp add: answer_def access_denied_def)

theorem access_denial_response_witness:
  "\<not> inline_users (example_env\<lparr>CACHE_TIME := 3600\<rparr>) (query_from 666 ''batman'') \<and>
   events (answer (example_env\<lparr>CACHE_TIME := 3600\<rparr>) (query_from 666 ''batman'')) =
       [Answer \<lparr>results = [], is_personal = None, cache_time_arg = 0,
                switch_pm_text = ''okDa'', switch_pm_parameter = ''hehe'',
                next_offset = None\<rparr>]"
proof -
  have h: "\<not> inline_users (example_env\<lparr>CACHE_TIME := 3600\<rparr>) (query_from 666 ''batman'')"
    by (simp add: inline_users_def example_env_def query_from_def)
  show ?thesis using h access_denial_response [OF h] by simp
qed

subsection \<open>The order of the gates and the search\<close>

text \<open>
  C5: when the access gate denies, the subscription check is not made and the search
  collaborator is not called; when the access gate admits, a channel is required and the
  subscription check does not return \<open>True\<close>, the search collaborator is not called; and
  when the check returns \<open>False\<close> the handler makes the check, sends the
  subscription-denial response and stops.
\<close>

theorem gates_short_circuit:
  "(\<not> inline_users env q \<longrightarrow>
      SubscriptionCheck \<notin> set (events (answer env q)) \<and>
      \<not> list_ex is_search (events (answer env q))) \<and>
   (inline_users env q \<and> channel_set (AUTH_CHANNEL env) \<and> is_subscribed env q \<noteq> Inr True \<longrightarrow>
      \<not> list_ex is_search (events (answer env q))) \<and>
   (inline_users env q \<and> channel_set (AUTH_CHANNEL env) \<and> is_subscribed env q = Inr False \<longrightarrow>
      events (answer env q) = [SubscriptionCheck, Answer subscription_denied])"
  by (auto simp: answer_def split: sum.splits)

theorem gates_short_circuit_witness:
  "\<not> inline_users example_env (query_from 666 ''batman'') \<and>
   SubscriptionCheck \<notin> set (events (answer example_env (query_from 666 ''batman''))) \<and>
   \<not> list_ex is_search (events (answer example_env (query_from 666 ''batman''))) \<and>
   inline_users (example_env\<lparr>AUTH_CHANNEL := Some (- 1001234), is_subscribed := \<lambda>q. Inr False\<rparr>)
     (query_from 7 ''batman'') \<and>
   \<not> list_ex is_search
     (events (answer (example_env\<lparr>AUTH_CHANNEL := Some (- 1001234), is_subscribed := \<lambda>q. Inr False\<rparr>)
        (query_from 7 ''batman''))) \<and>
   events (answer (example_env\<lparr>AUTH_CHANNEL := Some (- 1001234), is_subscribed := \<lambda>q. Inr False\<rparr>)
        (query_from 7 ''batman'')) = [SubscriptionCheck, Answer subscription_denied]"
proof -
  have a: "\<not> inline_users example_env (query_from 666 ''batman'')"
    by (simp add: inline_users_def example_env_def query_from_def)
  have b: "inline_users (example_env\<lparr>AUTH_CHANNEL := Some (- 1001234), is_subscribed := \<lambda>q. Inr False\<rparr>)
     (query_from 7 ''batman'')"
    by (simp add: inline_users_def example_env_def query_from_def)
  show ?thesis
    using a b gates_short_circuit [of example_env "query_from 666 ''batman''"]
      gates_short_circuit [of "example_env\<lparr>AUTH_CHANNEL := Some (- 1001234), is_subscribed := \<lambda>q. Inr False\<rparr>" "query_from 7 ''batman''"]
    by simp
qed

subsection \<open>Parsing the query\<close>

text \<open>
  C3: a raw query with a \<open>|\<close> is split at its first \<open>|\<close>: the search term is the part
  before it, stripped, and the file type is the part after it (which may hold further
  \<open>|\<close>), stripped and lowercased; a raw query without \<open>|\<close> gives the whole query,
  stripped, as search term and \<open>None\<close> as file type. The unpacking never raises.
\<close>

theorem parse_query_split:
  "(CHR ''|'' \<notin> set l \<longrightarrow>
      parse_query ul (l @ CHR ''|'' # r) = Inr (py_strip l, Some (py_lower ul (py_strip r)))) \<and>
   (CHR ''|'' \<notin> set raw \<longrightarrow> parse_query ul raw = Inr (py_strip raw, None))"
  by (simp add: parse_query_def py_in_single py_split1_at_first)

theorem parse_query_split_witness:
  "parse_query (\<lambda>s. s) '' batman | MKV|x '' = Inr (''batman'', Some ''mkv|x'') \<and>
   parse_query (\<lambda>s. s) '' batman '' = Inr (''batman'', None)"
proof -
  have a: "py_strip '' batman '' = ''batman''" by code_simp
  have b: "py_lower (\<lambda>s. s) (py_strip '' MKV|x '') = ''mkv|x''" by code_simp
  show ?thesis
    using parse_query_split [of "'' batman ''" "\<lambda>s. s" "'' MKV|x ''" "'' batman ''"] a b
    by simp
qed

subsection \<open>Caption templates\<close>

lemma emit_emit: "emit a (emit b x) = emit (a @ b) x"
  by (cases x) auto

lemma emit_Nil: "emit [] x = x"
  by (cases x) auto

lemma format_text_escaped:
  "py_format_text ext kw (escape_braces s @ rest) = emit s (py_format_text ext kw rest)"
  by (induction s) (auto simp: emit_emit emit_Nil)

lemma format_field_step:
  "plain_char c \<Longrightarrow>
     py_format_field ext kw acc (c # cs) = py_format_field ext kw (acc @ [c]) cs"
  by (auto simp: plain_char_def)

lemma format_field_close:
  "n \<noteq> [] \<Longrightarrow> \<not> list_all is_digit n \<Longrightarrow>
     py_format_field ext kw n (CHR ''}'' # rest) =
       (case map_of kw n of
          None \<Rightarrow> Inl (KeyError n)
        | Some v \<Rightarrow> emit v (py_format_text ext kw rest))"
  by simp

lemma format_text_open:
  "plain_char c \<Longrightarrow>
     py_format_text ext kw (CHR ''{'' # c # cs) = py_format_field ext kw [] (c # cs)"
  by (auto simp: plain_char_def)

lemma format_field_name:
  "list_all plain_char n \<Longrightarrow>
     py_format_field ext kw acc (n @ CHR ''}'' # rest) =
       py_format_field ext kw (acc @ n) (CHR ''}'' # rest)"
proof (induction n arbitrary: acc)
  case Nil
  show ?case by simp
next
  case (Cons c n)
  from Cons.prems have c: "plain_char c" and n: "list_all plain_char n"
    by simp_all
  have "py_format_field ext kw acc ((c # n) @ CHR ''}'' # rest) =
      py_format_field ext kw (acc @ [c]) (n @ CHR ''}'' # rest)"
    using format_field_step [OF c] by simp
  also have "\<dots> = py_format_field ext kw ((acc @ [c]) @ n) (CHR ''}'' # rest)"
    by (rule Cons.IH [OF n])
  finally show ?case by (simp del: py_format_field.simps)
qed

lemma format_text_field:
  assumes "plain_name n"
  shows "py_format_text ext kw (CHR ''{'' # n @ CHR ''}'' # rest) =
     (case map_of kw n of
        None \<Rightarrow> Inl (KeyError n)
      | Some v \<Rightarrow> emit v (py_format_text ext kw rest))"
proof -
  from assms obtain c cs where n: "n = c # cs" and c: "plain_char c"
    by (cases n) (auto simp: plain_name_def)
  have "py_format_text ext kw (CHR ''{'' # n @ CHR ''}'' # rest) =
      py_format_field ext kw [] (n @ CHR ''}'' # rest)"
    unfolding n using format_text_open [OF c] by simp
  also have "\<dots> = py_format_field ext kw n (CHR ''}'' # rest)"
    using assms format_field_name [of n ext kw "[]" rest] by (simp add: plain_name_def)
  also have "\<dots> = (case map_of kw n of
        None \<Rightarrow> Inl (KeyError n)
      | Some v \<Rightarrow> emit v (py_format_text ext kw rest))"
    using assms by (intro format_field_close) (simp_all add: plain_name_def)
  finally show ?thesis .
qed

lemma py_format_template_of:
  "plain_fields ps \<Longrightarrow> py_format ext (template_of ps) kw = substitute kw ps"
  unfolding py_format_def
proof (induction ps)
  case Nil
  show ?case by simp
next
  case (Cons p ps)
  show ?case
  proof (cases p)
    case (Lit s)
    with Cons show ?thesis by (simp add: format_text_escaped)
  next
    case (Field n)
    with Cons have "plain_name n" and "py_format_text ext kw (template_of ps) = substitute kw ps"
      by simp_all
    then show ?thesis
      unfolding Field by (simp add: format_text_field del: py_format_text.simps cong: option.case_cong)
  qed
qed


declare py_format_text.simps [simp del]
declare py_format_field.simps [simp del]

lemma substitute_defined:
  "set (field_names ps) \<subseteq> fst ` set kw \<Longrightarrow>
     substitute kw ps = Inr (fill (\<lambda>n. the (map_of kw n)) ps)"
proof (induction ps)
  case Nil
  show ?case by simp
next
  case (Cons p ps)
  show ?case
  proof (cases p)
    case (Lit s)
    with Cons show ?thesis by simp
  next
    case (Field n)
    with Cons.prems have "n \<in> fst ` set kw" by simp
    then obtain v where "map_of kw n = Some v"
      by (metis domD dom_map_of_conv_image_fst)
    with Cons Field show ?thesis by simp
  qed
qed

lemma substitute_undefined:
  "\<not> set (field_names ps) \<subseteq> fst ` set kw \<Longrightarrow>
     \<exists>n. n \<in> set (field_names ps) \<and> n \<notin> fst ` set kw \<and> substitute kw ps = Inl (KeyError n)"
proof (induction ps)
  case Nil
  then show ?case by simp
next
  case (Cons p ps)
  show ?case
  proof (cases p)
    case (Lit s)
    with Cons obtain n where "n \<in> set (field_names ps)" "n \<notin> fst ` set kw"
      "substitute kw ps = Inl (KeyError n)"
      by auto
    with Lit show ?thesis by auto
  next
    case (Field m)
    show ?thesis
    proof (cases "map_of kw m")
      case None
      then have "m \<notin> fst ` set kw"
        by (simp add: map_of_eq_None_iff)
      with None Field show ?thesis by auto
    next
      case (Some v)
      then have "m \<in> fst ` set kw"
        by (metis domI dom_map_of_conv_image_fst)
      with Cons.prems Field have "\<not> set (field_names ps) \<subseteq> fst ` set kw"
        by simp
      with Cons.IH obtain n where "n \<in> set (field_names ps)" "n \<notin> fst ` set kw"
        "substitute kw ps = Inl (KeyError n)"
        by auto
      with Some Field show ?thesis by auto
    qed
  qed
qed

lemma fill_cong:
  "(\<And>n. n \<in> set (field_names ps) \<Longrightarrow> v n = w n) \<Longrightarrow> fill v ps = fill w ps"
proof (induction ps)
  case Nil
  show ?case by simp
next
  case (Cons p ps)
  then show ?case by (cases p) auto
qed

lemma format_caption_plain:
  assumes "CUSTOM_FILE_CAPTION env = Some (template_of ps)"
    and "template_of ps \<noteq> []"
    and "plain_fields ps"
  shows "format_caption env f sz =
     (case substitute [(''file_name'', or_empty (file_name f)),
                       (''file_size'', or_empty sz),
                       (''file_caption'', or_empty (caption f))] ps of
        Inr c \<Rightarrow> ([], Some c)
      | Inl e \<Rightarrow> ([LogException e], caption f))"
  using assms by (simp add: format_caption_def py_format_template_of)

subsection \<open>Facts about a run\<close>

lemma parse_query_total: "\<exists>t ft. parse_query ul raw = Inr (t, ft)"
proof (cases "CHR ''|'' \<in> set raw")
  case True
  then obtain l r where "raw = l @ CHR ''|'' # r" and "CHR ''|'' \<notin> set l"
    by (auto dest: split_list_first)
  then show ?thesis
    by (simp add: parse_query_def py_in_single py_split1_at_first)
next
  case False
  then show ?thesis by (simp add: parse_query_def py_in_single)
qed

lemma answers_of_append: "answers_of (xs @ ys) = answers_of xs @ answers_of ys"
  by (induction xs rule: answers_of.induct) auto

lemma answers_of_logs: "list_all is_log evs \<Longrightarrow> answers_of evs = []"
  by (induction evs rule: answers_of.induct) auto

lemma log_not_search: "is_log e \<Longrightarrow> \<not> is_search e"
  by (cases e) auto

lemma no_search_in_logs: "list_all is_log evs \<Longrightarrow> \<not> list_ex is_search evs"
  by (induction evs) (auto dest: log_not_search)

lemma format_caption_logs: "format_caption env f sz = (evs, c) \<Longrightarrow> list_all is_log evs"
  by (auto simp: format_caption_def Let_def split: if_splits sum.splits)

lemma make_result_logs: "make_result env r f = (evs, x) \<Longrightarrow> list_all is_log evs"
  by (auto simp: make_result_def split: sum.splits prod.splits dest: format_caption_logs)

lemma make_result_ref: "make_result env r f = (evs, Inr x) \<Longrightarrow> reply_markup x = r"
  by (auto simp: make_result_def split: sum.splits prod.splits)

lemma make_results_logs: "make_results env r fs = (evs, x) \<Longrightarrow> list_all is_log evs"
proof (induction fs arbitrary: evs x)
  case Nil
  then show ?case by simp
next
  case (Cons f fs)
  then show ?case
    by (auto split: prod.splits sum.splits dest: make_result_logs)
qed

lemma make_results_refs:
  "make_results env r fs = (evs, Inr res) \<Longrightarrow>
     length res = length fs \<and> list_all (\<lambda>x. reply_markup x = r) res"
proof (induction fs arbitrary: evs res)
  case Nil
  then show ?case by simp
next
  case (Cons f fs)
  then show ?case
    by (auto split: prod.splits sum.splits dest: make_result_ref)
qed

lemma search_and_respond_found:
  assumes "parse_query (unicode_lower env) (query q) = Inr (t, ft)"
    and "parse_offset env (offset q) = Inr off"
    and "get_search_results env t ft 10 off = Inr (files, nxt, total_n)"
    and "make_results env 0 files = (evs', Inr res)"
  shows "search_and_respond env q evs =
     respond env (evs @ [Search t ft 10 off] @ evs') [get_reply_markup t] t res nxt total_n"
  using assms by (simp add: search_and_respond_def new_markup_def)

lemma py_in_prefix: "py_in t (t @ post)"
proof (cases "t @ post")
  case Nil
  then show ?thesis by simp
next
  case (Cons c cs)
  have "starts_with (t @ post) t" by (simp add: starts_with_def)
  with Cons show ?thesis by simp
qed

lemma py_in_append: "py_in t (pre @ t @ post)"
  by (induction pre) (auto simp: py_in_prefix)

lemma py_in_iff: "py_in t s = (\<exists>pre post. s = pre @ t @ post)"
proof
  show "py_in t s \<Longrightarrow> \<exists>pre post. s = pre @ t @ post"
  proof (induction s)
    case Nil
    then show ?case by simp
  next
    case (Cons c cs)
    show ?case
    proof (cases "starts_with (c # cs) t")
      case True
      then have "c # cs = [] @ t @ drop (length t) (c # cs)"
        by (metis append_Nil append_take_drop_id starts_with_def)
      then show ?thesis by blast
    next
      case False
      with Cons obtain pre post where "cs = pre @ t @ post" by auto
      then have "c # cs = (c # pre) @ t @ post" by simp
      then show ?thesis by blast
    qed
  qed
next
  show "\<exists>pre post. s = pre @ t @ post \<Longrightarrow> py_in t s"
    using py_in_append by blast
qed

lemma respond_answers:
  "answers_of evs = [] \<Longrightarrow>
     \<exists>a. answers_of (events (respond env evs h t res nxt total_n)) = [a] \<and>
         results a = res \<and>
         switch_pm_text a = (if res \<noteq> [] then results_prompt t total_n else no_results_prompt t)"
  by (auto simp: respond_def Let_def answers_of_append split: option.splits)

lemma respond_heap: "heap (respond env evs h t res nxt total_n) = h"
  by (auto simp: respond_def Let_def split: option.splits)

lemma results_prompt_contains:
  "py_in (str_int total_n) (results_prompt t total_n) \<and> py_in t (results_prompt t total_n)"
proof -
  have "py_in (str_int total_n) ((FILE_FOLDER @ '' Results - '') @ str_int total_n @ [])"
    and "py_in (str_int total_n) ((FILE_FOLDER @ '' Results - '') @ str_int total_n @ ('' for '' @ t))"
    and "py_in t ((FILE_FOLDER @ '' Results - '' @ str_int total_n @ '' for '') @ t @ [])"
    and "py_in [] ((FILE_FOLDER @ '' Results - '' @ str_int total_n) @ [] @ [])"
    by (rule py_in_append)+
  then show ?thesis by (auto simp: results_prompt_def Let_def)
qed

lemma no_results_prompt_contains:
  "py_in ''No results'' (no_results_prompt t) \<and>
   (t = [] \<or> py_in ([CHR 0x22] @ t @ [CHR 0x22]) (no_results_prompt t))"
proof -
  have "py_in ''No results'' ((CROSS_MARK @ '' '') @ ''No results'' @ [])"
    and "py_in ''No results'' ((CROSS_MARK @ '' '') @ ''No results'' @ ('' for '' @ [CHR 0x22] @ t @ [CHR 0x22]))"
    and "py_in ([CHR 0x22] @ t @ [CHR 0x22]) ((CROSS_MARK @ '' No results for '') @ ([CHR 0x22] @ t @ [CHR 0x22]) @ [])"
    by (rule py_in_append)+
  then show ?thesis by (auto simp: no_results_prompt_def Let_def)
qed

subsection \<open>The offset token\<close>

lemma space_is_literal: "is_c_space c \<Longrightarrow> int_literal_char c"
  by (simp add: int_literal_char_def)

lemma scan_digits_chars:
  "scan_digits v k u = Some (v', k', rest) \<Longrightarrow> list_all int_literal_char rest \<Longrightarrow>
     list_all int_literal_char u"
proof (induction v k u rule: scan_digits.induct)
  case (1 v k)
  then show ?case by simp
next
  case (2 v k c cs)
  show ?case
  proof (cases "is_digit c")
    case True
    with 2 show ?thesis by (simp add: int_literal_char_def)
  next
    case False
    note nd = this
    show ?thesis
    proof (cases "c = CHR ''_''")
      case True
      with nd 2 show ?thesis
        by (cases cs) (simp_all add: int_literal_char_def split: if_splits)
    next
      case False
      with nd 2 show ?thesis by simp
    qed
  qed
qed

lemma ascii_int_cases:
  "ascii_int m s = Inl ValueError \<or> (\<exists>i. ascii_int m s = Inr i \<and> list_all int_literal_char s)"
proof -
  define t where "t = dropWhile is_c_space s"
  define u where "u = (case t of [] \<Rightarrow> [] | c # r \<Rightarrow> if c = CHR ''+'' \<or> c = CHR ''-'' then r else t)"
  define neg where "neg = (case t of [] \<Rightarrow> False | c # _ \<Rightarrow> c = CHR ''-'')"
  have eq: "ascii_int m s =
     (case u of
        [] \<Rightarrow> Inl ValueError
      | d # _ \<Rightarrow>
          if is_digit d then
            (case scan_digits 0 0 u of
               None \<Rightarrow> Inl ValueError
             | Some (v, k, rest) \<Rightarrow>
                 if list_all is_c_space rest then
                   (if 0 < m \<and> m < k then Inl ValueError
                    else Inr (if neg then - int v else int v))
                 else Inl ValueError)
          else Inl ValueError)"
    unfolding ascii_int_def Let_def t_def u_def neg_def ..
  have lead: "list_all int_literal_char (takeWhile is_c_space s)"
    by (induction s) (auto dest: space_is_literal)
  have tu: "list_all int_literal_char t" if "list_all int_literal_char u"
  proof (cases t)
    case Nil
    then show ?thesis by simp
  next
    case (Cons c r)
    show ?thesis
    proof (cases "c = CHR ''+'' \<or> c = CHR ''-''")
      case True
      with Cons that show ?thesis by (auto simp: u_def int_literal_char_def)
    next
      case False
      with Cons that show ?thesis by (simp add: u_def)
    qed
  qed
  have whole: "list_all int_literal_char s" if "list_all int_literal_char u"
  proof -
    from lead tu [OF that]
    have "list_all int_literal_char (takeWhile is_c_space s) \<and>
        list_all int_literal_char (dropWhile is_c_space s)"
      unfolding t_def by blast
    then have "list_all int_literal_char (takeWhile is_c_space s @ dropWhile is_c_space s)"
      by (simp only: list_all_append)
    then show ?thesis by (simp only: takeWhile_dropWhile_id)
  qed
  show ?thesis
  proof (cases u)
    case Nil
    with eq show ?thesis by simp
  next
    case (Cons d ds)
    show ?thesis
    proof (cases "scan_digits 0 0 u")
      case None
      with eq Cons show ?thesis by (simp del: scan_digits.simps)
    next
      case (Some r)
      obtain v k rest where r: "r = (v, k, rest)" by (cases r) auto
      show ?thesis
      proof (cases "is_digit d \<and> list_all is_c_space rest \<and> \<not> (0 < m \<and> m < k)")
        case False
        with eq Cons Some r show ?thesis by (auto simp del: scan_digits.simps)
      next
        case True
        then have "list_all int_literal_char rest"
          by (induction rest) (auto dest: space_is_literal)
        with Some r have "list_all int_literal_char u"
          by (auto dest: scan_digits_chars)
        then have "list_all int_literal_char s" by (rule whole)
        moreover from eq Cons Some r True
        have "ascii_int m s = Inr (if neg then - int v else int v)"
          by (simp del: scan_digits.simps)
        ultimately show ?thesis by blast
      qed
    qed
  qed
qed

lemma ascii_int_malformed:
  "\<not> list_all int_literal_char s \<Longrightarrow> ascii_int m s = Inl ValueError"
  using ascii_int_cases [of m s] by auto

lemma search_and_respond_offset_error:
  assumes "parse_offset env (offset q) = Inl e"
  shows "search_and_respond env q evs = \<lparr>events = evs, raised = Some e, heap = []\<rparr>"
proof -
  obtain t ft where "parse_query (unicode_lower env) (query q) = Inr (t, ft)"
    using parse_query_total by blast
  with assms show ?thesis by (simp add: search_and_respond_def)
qed

lemma respond_events: "\<exists>more. events (respond env evs h t res nxt total_n) = evs @ more"
  by (cases "query_answer env
        \<lparr>results = res, is_personal = Some True,
         cache_time_arg = (if FORCE_FRESH_CACHE then 0 else cache_time env),
         switch_pm_text = results_prompt t total_n, switch_pm_parameter = ''start'',
         next_offset = Some (py_str nxt)\<rparr>")
    (simp_all add: respond_def Let_def)

lemma search_and_respond_searches:
  assumes pq: "parse_query (unicode_lower env) (query q) = Inr (t, ft)"
    and po: "parse_offset env (offset q) = Inr off"
  shows "Search t ft 10 off \<in> set (events (search_and_respond env q evs))"
proof (cases "get_search_results env t ft 10 off")
  case (Inl e)
  with pq po show ?thesis
    by (simp add: search_and_respond_def new_markup_def)
next
  case (Inr r)
  obtain files nxt total_n where r: "r = (files, nxt, total_n)"
    by (cases r) auto
  obtain evs' x where mr: "make_results env 0 files = (evs', x)"
    by (cases "make_results env 0 files") auto
  show ?thesis
  proof (cases x)
    case (Inl e)
    with pq po Inr r mr show ?thesis
      by (simp add: search_and_respond_def new_markup_def)
  next
    case (Inr res)
    with pq po \<open>get_search_results env t ft 10 off = Inr r\<close> r mr
    have "search_and_respond env q evs =
        respond env (evs @ [Search t ft 10 off] @ evs') [get_reply_markup t] t res nxt total_n"
      by (simp add: search_and_respond_found)
    moreover obtain more where
      "events (respond env (evs @ [Search t ft 10 off] @ evs') [get_reply_markup t] t res nxt total_n) =
         (evs @ [Search t ft 10 off] @ evs') @ more"
      using respond_events by blast
    ultimately show ?thesis by simp
  qed
qed

text \<open>
  C2, as the code has it: an absent or empty offset token gives offset 0, and the search
  is then called with offset 0. Any other token is passed to \<open>int\<close>, which is not
  guarded: an ASCII token holding a character that is neither a digit, whitespace, a
  sign nor an underscore raises \<open>ValueError\<close>, and an exception raised by the parse
  leaves the handler before the search is called and before any response is sent. There
  is no recovery to 0.
\<close>

theorem offset_token:
  "(tok = None \<or> tok = Some [] \<longrightarrow> parse_offset env tok = Inr 0) \<and>
   (list_all is_ascii s \<and> \<not> list_all int_literal_char s \<longrightarrow>
      parse_offset env (Some s) = Inl ValueError) \<and>
   (gates_pass env q \<and> parse_offset env (offset q) = Inl e \<longrightarrow>
      raised (answer env q) = Some e \<and>
      answers_of (events (answer env q)) = [] \<and>
      \<not> list_ex is_search (events (answer env q))) \<and>
   (gates_pass env q \<and> (offset q = None \<or> offset q = Some []) \<and>
    parse_query (unicode_lower env) (query q) = Inr (t, ft) \<longrightarrow>
      Search t ft 10 0 \<in> set (events (answer env q)))"
proof -
  have a: "tok = None \<or> tok = Some [] \<longrightarrow> parse_offset env tok = Inr 0"
    by (auto simp: parse_offset_def)
  have b: "list_all is_ascii s \<and> \<not> list_all int_literal_char s \<longrightarrow>
      parse_offset env (Some s) = Inl ValueError"
  proof
    assume h: "list_all is_ascii s \<and> \<not> list_all int_literal_char s"
    then have "s \<noteq> []" by auto
    with h show "parse_offset env (Some s) = Inl ValueError"
      by (simp add: parse_offset_def py_int_def ascii_int_malformed)
  qed
  have c: "gates_pass env q \<and> parse_offset env (offset q) = Inl e \<longrightarrow>
      raised (answer env q) = Some e \<and>
      answers_of (events (answer env q)) = [] \<and>
      \<not> list_ex is_search (events (answer env q))"
    by (simp add: answer_gates_pass search_and_respond_offset_error)
  have d: "gates_pass env q \<and> (offset q = None \<or> offset q = Some []) \<and>
      parse_query (unicode_lower env) (query q) = Inr (t, ft) \<longrightarrow>
      Search t ft 10 0 \<in> set (events (answer env q))"
  proof
    assume h: "gates_pass env q \<and> (offset q = None \<or> offset q = Some []) \<and>
      parse_query (unicode_lower env) (query q) = Inr (t, ft)"
    then have "parse_offset env (offset q) = Inr 0"
      by (auto simp: parse_offset_def)
    with h show "Search t ft 10 0 \<in> set (events (answer env q))"
      by (simp add: answer_gates_pass search_and_respond_searches)
  qed
  show ?thesis
    by (rule conjI [OF a conjI [OF b conjI [OF c d]]])
qed

theorem offset_token_witness:
  "parse_offset example_env None = Inr 0 \<and>
   parse_offset example_env (Some []) = Inr 0 \<and>
   parse_offset example_env (Some ''1O'') = Inl ValueError \<and>
   raised (answer example_env \<lparr>from_user = Some \<lparr>user_id = 7\<rparr>, query = ''batman'', offset = Some ''1O''\<rparr>) =
     Some ValueError \<and>
   answers_of (events (answer example_env \<lparr>from_user = Some \<lparr>user_id = 7\<rparr>, query = ''batman'', offset = Some ''1O''\<rparr>)) = [] \<and>
   Search ''batman'' None 10 0 \<in> set (events (answer example_env (query_from 7 ''batman'')))"
proof -
  let ?q = "\<lparr>from_user = Some \<lparr>user_id = 7\<rparr>, query = ''batman'', offset = Some ''1O''\<rparr>"
  have lit: "list_all is_ascii ''1O'' \<and> \<not> list_all int_literal_char ''1O''"
    by code_simp
  have g1: "gates_pass example_env ?q" by code_simp
  have g2: "gates_pass example_env (query_from 7 ''batman'')" by code_simp
  have pq: "parse_query (unicode_lower example_env) (query (query_from 7 ''batman'')) = Inr (''batman'', None)"
    by code_simp
  have off: "offset (query_from 7 ''batman'') = Some []"
    by (simp add: query_from_def)
  have bad: "parse_offset example_env (offset ?q) = Inl ValueError"
    using lit offset_token [of None example_env "''1O''" ?q ValueError "[]" None] by simp
  show ?thesis
    using lit g1 g2 pq off bad
      offset_token [of None example_env "''1O''" ?q ValueError "''batman''" None]
      offset_token [of "Some []" example_env "''1O''" "query_from 7 ''batman''" ValueError "''batman''" None]
    by simp
qed

theorem offset_token_counterexample:
  "parse_offset example_env (Some ''abc'') = Inl ValueError \<and>
   answer example_env \<lparr>from_user = Some \<lparr>user_id = 7\<rparr>, query = ''batman'', offset = Some ''abc''\<rparr> =
     \<lparr>events = [], raised = Some ValueError, heap = []\<rparr>"
  by code_simp

subsection \<open>The prompt of the response\<close>

text \<open>
  C7, as the code has it: when the gates pass and the search returns, the handler sends
  one answer with one result per file. With no file the prompt is the cross mark,
  \<open>No results\<close> and, for a non-empty term, \<open>for\<close> and the term in double quotes. With
  files the prompt is the file-folder emoji, \<open>Results -\<close>, the total the search
  collaborator reported (not the number of results sent) and, for a non-empty term,
  \<open>for\<close> and the term without quotes.
\<close>

theorem prompt_text:
  assumes "gates_pass env q"
    and "parse_query (unicode_lower env) (query q) = Inr (t, ft)"
    and "parse_offset env (offset q) = Inr off"
    and "get_search_results env t ft 10 off = Inr (files, nxt, total_n)"
    and "make_results env 0 files = (evs, Inr res)"
  shows "\<exists>a. answers_of (events (answer env q)) = [a] \<and>
           length (results a) = length files \<and>
           (files = [] \<longrightarrow>
              switch_pm_text a =
                CROSS_MARK @ '' No results'' @
                  (if t = [] then [] else '' for '' @ [CHR 0x22] @ t @ [CHR 0x22]) \<and>
              py_in ''No results'' (switch_pm_text a) \<and>
              (t \<noteq> [] \<longrightarrow> py_in ([CHR 0x22] @ t @ [CHR 0x22]) (switch_pm_text a))) \<and>
           (files \<noteq> [] \<longrightarrow>
              switch_pm_text a =
                FILE_FOLDER @ '' Results - '' @ str_int total_n @
                  (if t = [] then [] else '' for '' @ t) \<and>
              py_in (str_int total_n) (switch_pm_text a) \<and>
              py_in t (switch_pm_text a))"
proof -
  let ?evs = "(if channel_set (AUTH_CHANNEL env) then [SubscriptionCheck] else []) @
      [Search t ft 10 off] @ evs"
  have run: "answer env q = respond env ?evs [get_reply_markup t] t res nxt total_n"
    using assms by (simp add: answer_gates_pass search_and_respond_found)
  have "list_all is_log evs"
    using assms(5) by (rule make_results_logs)
  then have quiet: "answers_of ?evs = []"
    by (simp add: answers_of_append answers_of_logs)
  have len: "length res = length files"
    using make_results_refs [OF assms(5)] by simp
  from respond_answers [OF quiet, of env "[get_reply_markup t]" t res nxt total_n]
  obtain a where a: "answers_of (events (answer env q)) = [a]" "results a = res"
    "switch_pm_text a = (if res \<noteq> [] then results_prompt t total_n else no_results_prompt t)"
    unfolding run by blast
  have "switch_pm_text a = no_results_prompt t" if "files = []"
    using that a len by simp
  moreover have "switch_pm_text a = results_prompt t total_n" if "files \<noteq> []"
    using that a len by auto
  ultimately show ?thesis
    using a len results_prompt_contains [of total_n t] no_results_prompt_contains [of t]
    by (intro exI [of _ a]) (auto simp: results_prompt_def no_results_prompt_def Let_def)
qed

theorem prompt_text_witness:
  "(\<exists>a. answers_of (events (answer
            (example_env\<lparr>get_search_results := \<lambda>s t m off. Inr ([file_a, file_b], PyInt 10, 57)\<rparr>)
            (query_from 7 ''batman''))) = [a] \<and>
        length (results a) = 2 \<and>
        switch_pm_text a = FILE_FOLDER @ '' Results - 57 for batman'' \<and>
        py_in ''57'' (switch_pm_text a) \<and> py_in ''batman'' (switch_pm_text a)) \<and>
   (\<exists>a. answers_of (events (answer example_env (query_from 7 ''batman''))) = [a] \<and>
        results a = [] \<and>
        switch_pm_text a = CROSS_MARK @ '' No results for '' @ [CHR 0x22] @ ''batman'' @ [CHR 0x22] \<and>
        py_in ''No results'' (switch_pm_text a) \<and>
        py_in ([CHR 0x22] @ ''batman'' @ [CHR 0x22]) (switch_pm_text a))"
proof -
  let ?env = "example_env\<lparr>get_search_results := \<lambda>s t m off. Inr ([file_a, file_b], PyInt 10, 57)\<rparr>"
  let ?q = "query_from 7 ''batman''"
  have g: "gates_pass ?env ?q" "gates_pass example_env ?q"
    by code_simp+
  have pq: "parse_query (unicode_lower ?env) (query ?q) = Inr (''batman'', None)"
    "parse_query (unicode_lower example_env) (query ?q) = Inr (''batman'', None)"
    by code_simp+
  have po: "parse_offset ?env (offset ?q) = Inr 0" "parse_offset example_env (offset ?q) = Inr 0"
    by code_simp+
  have sr: "get_search_results ?env ''batman'' None 10 0 = Inr ([file_a, file_b], PyInt 10, 57)"
    "get_search_results example_env ''batman'' None 10 0 = Inr ([], PyStr [], 0)"
    by (simp_all add: example_env_def)
  obtain res where mr: "make_results ?env 0 [file_a, file_b] = ([], Inr res)"
    by (simp add: make_result_def format_caption_def example_env_def)
  have mr0: "make_results example_env 0 [] = ([], Inr [])"
    by simp
  have n: "str_int 57 = ''57''"
    by code_simp
  from prompt_text [OF g(1) pq(1) po(1) sr(1) mr] n
  have first: "\<exists>a. answers_of (events (answer ?env ?q)) = [a] \<and>
        length (results a) = 2 \<and>
        switch_pm_text a = FILE_FOLDER @ '' Results - 57 for batman'' \<and>
        py_in ''57'' (switch_pm_text a) \<and> py_in ''batman'' (switch_pm_text a)"
    by auto
  from prompt_text [OF g(2) pq(2) po(2) sr(2) mr0]
  have second: "\<exists>a. answers_of (events (answer example_env ?q)) = [a] \<and>
        results a = [] \<and>
        switch_pm_text a = CROSS_MARK @ '' No results for '' @ [CHR 0x22] @ ''batman'' @ [CHR 0x22] \<and>
        py_in ''No results'' (switch_pm_text a) \<and>
        py_in ([CHR 0x22] @ ''batman'' @ [CHR 0x22]) (switch_pm_text a)"
    by auto
  from first second show ?thesis by (rule conjI)
qed

theorem prompt_count_counterexample:
  "map (\<lambda>a. (length (results a), switch_pm_text a))
     (answers_of (events (answer
       (example_env\<lparr>get_search_results := \<lambda>s t m off. Inr ([file_a], PyInt 10, 57)\<rparr>)
       (query_from 7 ''batman'')))) =
     [(1, FILE_FOLDER @ '' Results - 57 for batman'')] \<and>
   \<not> py_in (str_nat 1) (FILE_FOLDER @ '' Results - 57 for batman'')"
  by code_simp

subsection \<open>Failures of the send\<close>

text \<open>
  In the branch with results the send is guarded: the handler returns normally whatever
  the platform does, logging every failure but \<open>QueryIdInvalid\<close>.
\<close>

lemma results_send_failure_caught:
  "res \<noteq> [] \<Longrightarrow>
     raised (respond env evs h t res nxt total_n) = None \<and>
     (\<exists>a. events (respond env evs h t res nxt total_n) =
        evs @ Answer a #
          (case query_answer env a of
             None \<Rightarrow> []
           | Some e \<Rightarrow> if e = QueryIdInvalid then [] else [LogException e]))"
  by (auto simp: respond_def Let_def split: option.splits)

text \<open>
  C8 at a query with no results: the send of the no-results branch is not guarded, so
  \<open>QueryIdInvalid\<close> and every other failure of the send leave the handler as an
  exception, and nothing is logged.
\<close>

theorem no_results_send_failure_propagates:
  "raised (answer (example_env\<lparr>query_answer := \<lambda>a. Some QueryIdInvalid\<rparr>) (query_from 7 ''batman'')) =
     Some QueryIdInvalid \<and>
   raised (answer (example_env\<lparr>query_answer := \<lambda>a. Some (OtherException ''network'')\<rparr>) (query_from 7 ''batman'')) =
     Some (OtherException ''network'') \<and>
   events (answer (example_env\<lparr>query_answer := \<lambda>a. Some (OtherException ''network'')\<rparr>) (query_from 7 ''batman'')) =
     [Search ''batman'' None 10 0,
      Answer \<lparr>results = [], is_personal = Some True, cache_time_arg = 0,
              switch_pm_text = CROSS_MARK @ '' No results for '' @ [CHR 0x22] @ ''batman'' @ [CHR 0x22],
              switch_pm_parameter = ''okay'', next_offset = None\<rparr>]"
  by code_simp

subsection \<open>The reply markup\<close>

lemma search_and_respond_markup:
  assumes pq: "parse_query (unicode_lower env) (query q) = Inr (t, ft)"
    and quiet: "answers_of evs = []"
  shows "length (heap (search_and_respond env q evs)) \<le> 1 \<and>
     list_all (\<lambda>a. list_all (\<lambda>x. reply_markup x = 0 \<and>
                      heap (search_and_respond env q evs) = [get_reply_markup t]) (results a))
       (answers_of (events (search_and_respond env q evs)))"
proof (cases "parse_offset env (offset q)")
  case (Inl e)
  with pq quiet show ?thesis by (simp add: search_and_respond_def)
next
  case (Inr off)
  note po = this
  show ?thesis
  proof (cases "get_search_results env t ft 10 off")
    case (Inl e)
    with pq po quiet show ?thesis
      by (simp add: search_and_respond_def new_markup_def answers_of_append)
  next
    case (Inr r)
    obtain files nxt total_n where r: "r = (files, nxt, total_n)"
      by (cases r) auto
    obtain evs' x where mr: "make_results env 0 files = (evs', x)"
      by (cases "make_results env 0 files") auto
    have logs: "answers_of evs' = []"
      using make_results_logs [OF mr] by (rule answers_of_logs)
    show ?thesis
    proof (cases x)
      case (Inl e)
      with pq po Inr r mr quiet logs show ?thesis
        by (simp add: search_and_respond_def new_markup_def answers_of_append)
    next
      case (Inr res)
      let ?evs = "evs @ [Search t ft 10 off] @ evs'"
      from pq po \<open>get_search_results env t ft 10 off = Inr r\<close> r mr Inr
      have run: "search_and_respond env q evs =
          respond env ?evs [get_reply_markup t] t res nxt total_n"
        by (simp add: search_and_respond_found)
      have q2: "answers_of ?evs = []"
        using quiet logs by (simp add: answers_of_append)
      from mr Inr have refs: "list_all (\<lambda>x. reply_markup x = 0) res"
        using make_results_refs [of env 0 files evs' res] by simp
      from respond_answers [OF q2, of env "[get_reply_markup t]" t res nxt total_n]
      obtain a where a: "answers_of (events (search_and_respond env q evs)) = [a]"
        and ra: "results a = res"
        unfolding run by blast
      have h: "heap (search_and_respond env q evs) = [get_reply_markup t]"
        unfolding run by (rule respond_heap)
      from refs have "list_all (\<lambda>x. reply_markup x = 0 \<and>
          heap (search_and_respond env q evs) = [get_reply_markup t]) res"
        unfolding h by (simp add: list_all_iff)
      with a ra h show ?thesis by simp
    qed
  qed
qed

text \<open>
  C9: a run of the handler builds at most one markup object; every result of every
  answer it sends refers to that one object, which is the markup built from the stripped
  search term: two rows, the first with the one channel-link button, the second with the
  one \<open>Search again\<close> button whose \<open>switch_inline_query_current_chat\<close> is the search term.
\<close>

theorem reply_markup_shared:
  assumes "parse_query (unicode_lower env) (query q) = Inr (t, ft)"
  shows "length (heap (answer env q)) \<le> 1 \<and>
     list_all (\<lambda>a. list_all (\<lambda>x. reply_markup x = 0 \<and>
                      heap (answer env q) = [get_reply_markup t]) (results a))
       (answers_of (events (answer env q))) \<and>
     get_reply_markup t =
       [[\<lparr>button_text = BOOKS @ '' HD MOVIES HUB '' @ BOOKS,
          url = Some ''https://t.me/+KJHSwIdswKUwZjU1'',
          switch_inline_query_current_chat = None\<rparr>],
        [\<lparr>button_text = ''Search again'', url = None,
          switch_inline_query_current_chat = Some t\<rparr>]] \<and>
     length (get_reply_markup t) = 2"
proof -
  have m: "get_reply_markup t =
       [[\<lparr>button_text = BOOKS @ '' HD MOVIES HUB '' @ BOOKS,
          url = Some ''https://t.me/+KJHSwIdswKUwZjU1'',
          switch_inline_query_current_chat = None\<rparr>],
        [\<lparr>button_text = ''Search again'', url = None,
          switch_inline_query_current_chat = Some t\<rparr>]]"
    by (simp add: get_reply_markup_def)
  have len: "length (get_reply_markup t) = 2"
    by (simp add: get_reply_markup_def)
  have run: "length (heap (answer env q)) \<le> 1 \<and>
     list_all (\<lambda>a. list_all (\<lambda>x. reply_markup x = 0 \<and>
                      heap (answer env q) = [get_reply_markup t]) (results a))
       (answers_of (events (answer env q)))"
  proof (cases "gates_pass env q")
    case True
    then have "answer env q =
        search_and_respond env q (if channel_set (AUTH_CHANNEL env) then [SubscriptionCheck] else [])"
      by (rule answer_gates_pass)
    moreover have "answers_of (if channel_set (AUTH_CHANNEL env) then [SubscriptionCheck] else []) = []"
      by simp
    ultimately show ?thesis
      using search_and_respond_markup [OF assms] by simp
  next
    case False
    show ?thesis
    proof (cases "inline_users env q")
      case False
      then show ?thesis by (simp add: answer_def access_denied_def)
    next
      case True
      with \<open>\<not> gates_pass env q\<close> have ch: "channel_set (AUTH_CHANNEL env)"
        and ns: "is_subscribed env q \<noteq> Inr True"
        by (auto simp: gates_pass_def split: if_splits)
      show ?thesis
      proof (cases "is_subscribed env q")
        case (Inl e)
        with True ch show ?thesis by (simp add: answer_def)
      next
        case (Inr b)
        with ns have "\<not> b" by simp
        with Inr True ch show ?thesis
          by (simp add: answer_def subscription_denied_def)
      qed
    qed
  qed
  from run m len show ?thesis by blast
qed

theorem reply_markup_shared_witness:
  "heap (answer (example_env\<lparr>get_search_results := \<lambda>s t m off. Inr ([file_a, file_b], PyInt 10, 57)\<rparr>)
           (query_from 7 '' batman |MKV'')) = [get_reply_markup ''batman''] \<and>
   map (\<lambda>a. map reply_markup (results a))
     (answers_of (events (answer
        (example_env\<lparr>get_search_results := \<lambda>s t m off. Inr ([file_a, file_b], PyInt 10, 57)\<rparr>)
        (query_from 7 '' batman |MKV'')))) = [[0, 0]] \<and>
   length (get_reply_markup ''batman'') = 2"
proof -
  let ?env = "example_env\<lparr>get_search_results := \<lambda>s t m off. Inr ([file_a, file_b], PyInt 10, 57)\<rparr>"
  let ?q = "query_from 7 '' batman |MKV''"
  have pq: "parse_query (unicode_lower ?env) (query ?q) = Inr (''batman'', Some ''mkv'')"
    by code_simp
  have run: "map (\<lambda>a. map reply_markup (results a)) (answers_of (events (answer ?env ?q))) = [[0, 0]]"
    by code_simp
  then obtain a where a: "answers_of (events (answer ?env ?q)) = [a]"
    and r: "map reply_markup (results a) = [0, 0]"
    by auto
  from r have "results a \<noteq> []" by auto
  with a reply_markup_shared [OF pq] have "heap (answer ?env ?q) = [get_reply_markup ''batman'']"
    by (cases "results a") auto
  with run reply_markup_shared [OF pq] show ?thesis by simp
qed

subsection \<open>The captions of the results sent\<close>

lemma substitute_undefined_uniform:
  "\<not> set (field_names ps) \<subseteq> K \<Longrightarrow>
     \<exists>n. n \<in> set (field_names ps) \<and> n \<notin> K \<and>
         (\<forall>kw. fst ` set kw = K \<longrightarrow> substitute kw ps = Inl (KeyError n))"
proof (induction ps)
  case Nil
  then show ?case by simp
next
  case (Cons p ps)
  show ?case
  proof (cases p)
    case (Lit s)
    with Cons obtain n where "n \<in> set (field_names ps)" "n \<notin> K"
      "\<forall>kw. fst ` set kw = K \<longrightarrow> substitute kw ps = Inl (KeyError n)"
      by auto
    with Lit show ?thesis by auto
  next
    case (Field m)
    show ?thesis
    proof (cases "m \<in> K")
      case False
      have "substitute kw (Field m # ps) = Inl (KeyError m)" if "fst ` set kw = K" for kw
      proof -
        from that False have "map_of kw m = None"
          by (simp add: map_of_eq_None_iff)
        then show ?thesis by simp
      qed
      with False Field show ?thesis by auto
    next
      case True
      with Cons.prems Field have "\<not> set (field_names ps) \<subseteq> K" by simp
      with Cons.IH obtain n where n: "n \<in> set (field_names ps)" "n \<notin> K"
        "\<forall>kw. fst ` set kw = K \<longrightarrow> substitute kw ps = Inl (KeyError n)"
        by auto
      have "substitute kw (Field m # ps) = Inl (KeyError n)" if "fst ` set kw = K" for kw
      proof -
        from that True have "m \<in> fst ` set kw" by simp
        then obtain v where "map_of kw m = Some v"
          by (metis domD dom_map_of_conv_image_fst)
        with n(3) that show ?thesis by simp
      qed
      with n Field show ?thesis by auto
    qed
  qed
qed

lemma format_caption_defined:
  assumes "CUSTOM_FILE_CAPTION env = Some (template_of ps)"
    and "template_of ps \<noteq> []"
    and "plain_fields ps"
    and sub: "set (field_names ps) \<subseteq> {''file_name'', ''file_size'', ''file_caption''}"
  shows "format_caption env f sz = ([], Some (fill (caption_field f sz) ps))"
proof -
  let ?kw = "[(''file_name'', or_empty (file_name f)),
              (''file_size'', or_empty sz),
              (''file_caption'', or_empty (caption f))]"
  have dom: "fst ` set ?kw = {''file_name'', ''file_size'', ''file_caption''}"
    by simp
  from sub dom have "substitute ?kw ps = Inr (fill (\<lambda>n. the (map_of ?kw n)) ps)"
    by (intro substitute_defined) simp
  moreover have "fill (\<lambda>n. the (map_of ?kw n)) ps = fill (caption_field f sz) ps"
    using sub by (intro fill_cong) (auto simp: caption_field_def)
  ultimately show ?thesis
    using format_caption_plain [OF assms(1-3), of f sz] by simp
qed

lemma format_caption_undefined:
  assumes "CUSTOM_FILE_CAPTION env = Some (template_of ps)"
    and "template_of ps \<noteq> []"
    and "plain_fields ps"
    and nsub: "\<not> set (field_names ps) \<subseteq> {''file_name'', ''file_size'', ''file_caption''}"
  shows "\<exists>n. n \<in> set (field_names ps) \<and>
       n \<notin> {''file_name'', ''file_size'', ''file_caption''} \<and>
       (\<forall>f sz. format_caption env f sz = ([LogException (KeyError n)], caption f))"
proof -
  from substitute_undefined_uniform [OF nsub] obtain n where
    n: "n \<in> set (field_names ps)" "n \<notin> {''file_name'', ''file_size'', ''file_caption''}"
    and all: "\<And>kw. fst ` set kw = {''file_name'', ''file_size'', ''file_caption''} \<Longrightarrow>
       substitute kw ps = Inl (KeyError n)"
    by blast
  have "format_caption env f sz = ([LogException (KeyError n)], caption f)" for f sz
  proof -
    let ?kw = "[(''file_name'', or_empty (file_name f)),
                (''file_size'', or_empty sz),
                (''file_caption'', or_empty (caption f))]"
    have "substitute ?kw ps = Inl (KeyError n)"
      by (rule all) simp
    then show ?thesis
      using format_caption_plain [OF assms(1-3), of f sz] by simp
  qed
  with n show ?thesis by blast
qed

text \<open>The loop over the files when \<open>f_caption\<close> after the template block is known.\<close>

lemma make_results_known:
  assumes sizes: "list_all (\<lambda>g. get_size env (file_size g) = Inr (sz_of g)) files"
    and fc: "\<And>g. format_caption env g (sz_of g) = (log g, cap g)"
  shows "\<exists>res. make_results env r files = (concat (map log files), Inr res) \<and>
       map document_file_id res = map file_id files \<and>
       map result_caption res =
         map (\<lambda>g. case cap g of None \<Rightarrow> str_opt (file_name g) | Some c \<Rightarrow> c) files"
  using sizes
proof (induction files)
  case Nil
  show ?case by simp
next
  case (Cons g gs)
  then obtain res where rest: "make_results env r gs = (concat (map log gs), Inr res)"
    "map document_file_id res = map file_id gs"
    "map result_caption res =
       map (\<lambda>g. case cap g of None \<Rightarrow> str_opt (file_name g) | Some c \<Rightarrow> c) gs"
    by auto
  from Cons.prems have gs: "get_size env (file_size g) = Inr (sz_of g)" by simp
  obtain x where x: "make_result env r g = (log g, Inr x)"
    "document_file_id x = file_id g"
    "result_caption x = (case cap g of None \<Rightarrow> str_opt (file_name g) | Some c \<Rightarrow> c)"
    using gs fc [of g] by (simp add: make_result_def)
  from x(1) rest(1) have "make_results env r (g # gs) = (concat (map log (g # gs)), Inr (x # res))"
    by simp
  with x(2,3) rest(2,3) show ?case by simp
qed

lemma answer_sends_results:
  assumes "gates_pass env q"
    and "parse_query (unicode_lower env) (query q) = Inr (t, ft)"
    and "parse_offset env (offset q) = Inr off"
    and "get_search_results env t ft 10 off = Inr (files, nxt, total_n)"
    and mr: "make_results env 0 files = (evs, Inr res)"
  shows "(\<exists>a. answers_of (events (answer env q)) = [a] \<and> results a = res) \<and>
     set evs \<subseteq> set (events (answer env q))"
proof -
  let ?evs = "(if channel_set (AUTH_CHANNEL env) then [SubscriptionCheck] else []) @
      [Search t ft 10 off] @ evs"
  have run: "answer env q = respond env ?evs [get_reply_markup t] t res nxt total_n"
    using assms by (simp add: answer_gates_pass search_and_respond_found)
  have "list_all is_log evs"
    using mr by (rule make_results_logs)
  then have quiet: "answers_of ?evs = []"
    by (simp add: answers_of_append answers_of_logs)
  from respond_answers [OF quiet, of env "[get_reply_markup t]" t res nxt total_n]
  have a: "\<exists>a. answers_of (events (answer env q)) = [a] \<and> results a = res"
    unfolding run by blast
  obtain more where "events (answer env q) = ?evs @ more"
    unfolding run using respond_events by blast
  then have "set evs \<subseteq> set (events (answer env q))" by auto
  with a show ?thesis by blast
qed



end
